theory Spec2Isabelle
  imports Main "HOL-Library.Word"
begin

unbundle bit_operations_syntax

section \<open>Sign and endian utilities\<close>

text \<open>
  Words of the machine are \<open>uint16_t\<close>. In C the operands of a shift or of a bitwise
  operator are promoted to \<open>int\<close> (32 bits) first and the result is cut back to 16 bits
  when it is stored in a \<open>uint16_t\<close>; the model writes both conversions out.
\<close>

type_synonym u16 = "16 word"
type_synonym u8 = "8 word"
type_synonym c_int = "32 word"

text \<open>
  In \<open>sign_extend\<close> the shift \<open>0xFFFF << bit_count\<close> stays within \<open>int\<close> up to
  \<open>bit_count = 15\<close>; at 16 it overflows, and the model takes the wrapped 32-bit value.
\<close>

definition sign_extend :: "u16 \<Rightarrow> int \<Rightarrow> u16" where
  "sign_extend x bit_count =
     (if drop_bit (nat (bit_count - 1)) (ucast x :: c_int) AND 1 \<noteq> 0
      then ucast ((ucast x :: c_int) OR push_bit (nat bit_count) (0xFFFF :: c_int))
      else x)"

definition swap_16 :: "u16 \<Rightarrow> u16" where
  "swap_16 x = ucast (push_bit 8 (ucast x :: c_int) OR drop_bit 8 (ucast x :: c_int))"

section \<open>Machine state\<close>

definition MEMORY_MAX :: nat where "MEMORY_MAX = 2 ^ 16"

text \<open>Indices into the register array \<open>regs[R_COUNT]\<close>.\<close>

definition R_R0 :: nat where "R_R0 = 0"
definition R_R1 :: nat where "R_R1 = 1"
definition R_R2 :: nat where "R_R2 = 2"
definition R_R3 :: nat where "R_R3 = 3"
definition R_R4 :: nat where "R_R4 = 4"
definition R_R5 :: nat where "R_R5 = 5"
definition R_R6 :: nat where "R_R6 = 6"
definition R_R7 :: nat where "R_R7 = 7"
definition R_PC :: nat where "R_PC = 8"
definition R_COND :: nat where "R_COND = 9"
definition R_COUNT :: nat where "R_COUNT = 10"

lemmas reg_defs = R_R0_def R_R1_def R_R2_def R_R3_def R_R4_def R_R5_def R_R6_def R_R7_def
  R_PC_def R_COND_def R_COUNT_def

definition OP_BR :: u16 where "OP_BR = 0"
definition OP_ADD :: u16 where "OP_ADD = 1"
definition OP_LD :: u16 where "OP_LD = 2"
definition OP_ST :: u16 where "OP_ST = 3"
definition OP_JSR :: u16 where "OP_JSR = 4"
definition OP_AND :: u16 where "OP_AND = 5"
definition OP_LDR :: u16 where "OP_LDR = 6"
definition OP_STR :: u16 where "OP_STR = 7"
definition OP_RTI :: u16 where "OP_RTI = 8"
definition OP_NOT :: u16 where "OP_NOT = 9"
definition OP_LDI :: u16 where "OP_LDI = 10"
definition OP_STI :: u16 where "OP_STI = 11"
definition OP_JMP :: u16 where "OP_JMP = 12"
definition OP_RES :: u16 where "OP_RES = 13"
definition OP_LEA :: u16 where "OP_LEA = 14"
definition OP_TRAP :: u16 where "OP_TRAP = 15"

lemmas op_defs = OP_BR_def OP_ADD_def OP_LD_def OP_ST_def OP_JSR_def OP_AND_def OP_LDR_def
  OP_STR_def OP_RTI_def OP_NOT_def OP_LDI_def OP_STI_def OP_JMP_def OP_RES_def OP_LEA_def
  OP_TRAP_def

definition FL_POS :: u16 where "FL_POS = push_bit 0 1"
definition FL_ZRO :: u16 where "FL_ZRO = push_bit 1 1"
definition FL_NEG :: u16 where "FL_NEG = push_bit 2 1"

lemmas fl_defs = FL_POS_def FL_ZRO_def FL_NEG_def

definition TRAP_GETC :: u16 where "TRAP_GETC = 0x20"
definition TRAP_OUT :: u16 where "TRAP_OUT = 0x21"
definition TRAP_PUTS :: u16 where "TRAP_PUTS = 0x22"
definition TRAP_IN :: u16 where "TRAP_IN = 0x23"
definition TRAP_PUTSP :: u16 where "TRAP_PUTSP = 0x24"
definition TRAP_HALT :: u16 where "TRAP_HALT = 0x25"

lemmas trap_defs = TRAP_GETC_def TRAP_OUT_def TRAP_PUTS_def TRAP_IN_def TRAP_PUTSP_def
  TRAP_HALT_def

definition MR_KBSR :: u16 where "MR_KBSR = 0xFE00"
definition MR_KBDR :: u16 where "MR_KBDR = 0xFE02"

lemmas mr_defs = MR_KBSR_def MR_KBDR_def

text \<open>
  The terminal settings: only the local-mode flags are touched by the program, the other
  fields of \<open>struct termios\<close> are copied as they are. The type \<open>tcflag_t\<close> and the
  flag bits \<open>ICANON\<close> and \<open>ECHO\<close> come from the system headers; the flags are
  parameters of the functions that use them.
\<close>

record termios =
  c_lflag :: "32 word"

text \<open>
  The globals \<open>memory\<close>, \<open>regs\<close> and \<open>original_tio\<close>, the local \<open>running\<close> of
  \<open>main\<close>, and the part of the host the program talks to: the settings of the terminal,
  the bytes written to standard output so far, and standard input.

  Standard input is seen through two calls that do not look at the same thing.
  \<open>getchar\<close> delivers the bytes of \<open>stdin\<close> in order, the ones stdio already holds in its
  buffer and the ones still at the descriptor alike, and end of file after the last.
  \<open>select\<close> looks at the descriptor only, at the moment of the call: it answers a positive
  number when a byte is pending there and also at end of file, 0 when nothing is pending
  (also while stdio still holds buffered bytes), and -1 when it fails. What it answers
  is therefore the host's to say: \<open>select_oracle n bs\<close> is the answer to the call number
  \<open>n\<close> when \<open>bs\<close> are the bytes not yet delivered, and \<open>select_calls\<close> counts the calls.
\<close>

record vm =
  memory :: "u16 \<Rightarrow> u16"
  regs :: "nat \<Rightarrow> u16"
  running :: bool
  original_tio :: termios
  terminal :: termios
  stdin :: "u8 list"
  stdout :: "u8 list"
  select_oracle :: "nat \<Rightarrow> u8 list \<Rightarrow> int"
  select_calls :: nat

text \<open>
  Behaviour the C source leaves undefined: a pointer walked past the end of \<open>memory\<close>
  and then dereferenced.
\<close>

datatype fault = OutOfBounds

section \<open>Host terminal adapter\<close>

definition disable_input_buffering :: "32 word \<Rightarrow> 32 word \<Rightarrow> vm \<Rightarrow> vm" where
  "disable_input_buffering ICANON ECHO s =
     (let s1 = s\<lparr>original_tio := terminal s\<rparr>;
          new_tio = original_tio s1;
          new_tio = new_tio\<lparr>c_lflag := c_lflag new_tio AND (NOT ICANON AND NOT ECHO)\<rparr>
      in s1\<lparr>terminal := new_tio\<rparr>)"

definition restore_input_buffering :: "vm \<Rightarrow> vm" where
  "restore_input_buffering s = s\<lparr>terminal := original_tio s\<rparr>"

text \<open>
  \<open>select(1, &readfds, NULL, NULL, &timeout)\<close> on standard input with a zero timeout.
\<close>

definition select_stdin :: "vm \<Rightarrow> int \<times> vm" where
  "select_stdin s =
     (select_oracle s (select_calls s) (stdin s), s\<lparr>select_calls := select_calls s + 1\<rparr>)"

text \<open>
  \<open>check_key\<close> returns \<open>select(...) != 0\<close>: 1 for every answer but 0, the failure -1
  and the end of file included.
\<close>

definition check_key :: "vm \<Rightarrow> u16 \<times> vm" where
  "check_key s = (let (r, s1) = select_stdin s in (if r \<noteq> 0 then 1 else 0, s1))"

definition EOF :: int where "EOF = - 1"

text \<open>
  \<open>getchar\<close> returns the next byte as a non-negative \<open>int\<close>, or \<open>EOF\<close> when none is
  left.
\<close>

definition getchar :: "vm \<Rightarrow> int \<times> vm" where
  "getchar s = (case stdin s of [] \<Rightarrow> (EOF, s) | b # bs \<Rightarrow> (uint b, s\<lparr>stdin := bs\<rparr>))"

definition putc :: "u8 \<Rightarrow> vm \<Rightarrow> vm" where
  "putc ch s = s\<lparr>stdout := stdout s @ [ch]\<rparr>"

definition printf :: "string \<Rightarrow> vm \<Rightarrow> vm" where
  "printf str s = s\<lparr>stdout := stdout s @ map of_char str\<rparr>"

section \<open>Memory interface\<close>

definition mem_read :: "u16 \<Rightarrow> vm \<Rightarrow> u16 \<times> vm" where
  "mem_read address s =
     (let s' =
        (if address = MR_KBSR then
           (let (key, s0) = check_key s
            in if key \<noteq> 0 then
                 (let s1 = s0\<lparr>memory := (memory s0)(MR_KBSR := push_bit 15 1)\<rparr>;
                      (ch, s2) = getchar s1
                  in s2\<lparr>memory := (memory s2)(MR_KBDR := word_of_int ch)\<rparr>)
               else s0\<lparr>memory := (memory s0)(MR_KBSR := 0)\<rparr>)
         else s)
      in (memory s' address, s'))"

definition mem_write :: "u16 \<Rightarrow> u16 \<Rightarrow> vm \<Rightarrow> vm" where
  "mem_write addr val s = s\<lparr>memory := (memory s)(addr := val)\<rparr>"

definition update_flags :: "nat \<Rightarrow> vm \<Rightarrow> vm" where
  "update_flags r s =
     (if regs s r = 0 then s\<lparr>regs := (regs s)(R_COND := FL_ZRO)\<rparr>
      else if drop_bit 15 (regs s r) \<noteq> 0 then s\<lparr>regs := (regs s)(R_COND := FL_NEG)\<rparr>
      else s\<lparr>regs := (regs s)(R_COND := FL_POS)\<rparr>)"

section \<open>Instruction handlers\<close>

text \<open>
  The cases of the \<open>switch (op)\<close> in \<open>main\<close>, one definition per case, in the order of
  the source. Each takes the fetched instruction and the state after the fetch, so
  \<open>regs s R_PC\<close> is the incremented program counter.
\<close>

definition op_add :: "u16 \<Rightarrow> vm \<Rightarrow> vm" where
  "op_add instr s =
     (let r0 = unat (drop_bit 9 instr AND 0x7);
          r1 = unat (drop_bit 6 instr AND 0x7);
          imm_flag = drop_bit 5 instr AND 0x1;
          s1 = (if imm_flag \<noteq> 0 then
                  (let imm5 = sign_extend (instr AND 0x1F) 5
                   in s\<lparr>regs := (regs s)(r0 := regs s r1 + imm5)\<rparr>)
                else
                  (let r2 = unat (instr AND 0x7)
                   in s\<lparr>regs := (regs s)(r0 := regs s r1 + regs s r2)\<rparr>))
      in update_flags r0 s1)"

definition op_and :: "u16 \<Rightarrow> vm \<Rightarrow> vm" where
  "op_and instr s =
     (let r0 = unat (drop_bit 9 instr AND 0x7);
          r1 = unat (drop_bit 6 instr AND 0x7);
          imm_flag = drop_bit 5 instr AND 0x1;
          s1 = (if imm_flag \<noteq> 0 then
                  (let imm5 = sign_extend (instr AND 0x1F) 5
                   in s\<lparr>regs := (regs s)(r0 := regs s r1 AND imm5)\<rparr>)
                else
                  (let r2 = unat (instr AND 0x7)
                   in s\<lparr>regs := (regs s)(r0 := regs s r1 AND regs s r2)\<rparr>))
      in update_flags r0 s1)"

definition op_not :: "u16 \<Rightarrow> vm \<Rightarrow> vm" where
  "op_not instr s =
     (let r0 = unat (drop_bit 9 instr AND 0x7);
          r1 = unat (drop_bit 6 instr AND 0x7);
          s1 = s\<lparr>regs := (regs s)(r0 := NOT (regs s r1))\<rparr>
      in update_flags r0 s1)"

definition op_br :: "u16 \<Rightarrow> vm \<Rightarrow> vm" where
  "op_br instr s =
     (let cond_flag = drop_bit 9 instr AND 0x7;
          pcoffset = sign_extend (instr AND 0x1FF) 9
      in if cond_flag AND regs s R_COND \<noteq> 0
         then s\<lparr>regs := (regs s)(R_PC := regs s R_PC + pcoffset)\<rparr>
         else s)"

definition op_jmp :: "u16 \<Rightarrow> vm \<Rightarrow> vm" where
  "op_jmp instr s =
     (let r1 = unat (drop_bit 6 instr AND 0x7)
      in s\<lparr>regs := (regs s)(R_PC := regs s r1)\<rparr>)"

definition op_jsr :: "u16 \<Rightarrow> vm \<Rightarrow> vm" where
  "op_jsr instr s =
     (let cond_flag = drop_bit 11 instr AND 1;
          s1 = s\<lparr>regs := (regs s)(R_R7 := regs s R_PC)\<rparr>
      in if cond_flag = 0 then
           (let r1 = unat (drop_bit 6 instr AND 0x7)
            in s1\<lparr>regs := (regs s1)(R_PC := regs s1 r1)\<rparr>)
         else s1\<lparr>regs := (regs s1)(R_PC := regs s1 R_PC + sign_extend (instr AND 0x7FF) 11)\<rparr>)"

definition op_ld :: "u16 \<Rightarrow> vm \<Rightarrow> vm" where
  "op_ld instr s =
     (let r0 = unat (drop_bit 9 instr AND 0x7);
          (v, s1) = mem_read (regs s R_PC + sign_extend (instr AND 0x1FF) 9) s;
          s2 = s1\<lparr>regs := (regs s1)(r0 := v)\<rparr>
      in update_flags r0 s2)"

definition op_ldi :: "u16 \<Rightarrow> vm \<Rightarrow> vm" where
  "op_ldi instr s =
     (let r0 = unat (drop_bit 9 instr AND 0x7);
          pcoffset = sign_extend (instr AND 0x1FF) 9;
          (a, s1) = mem_read (regs s R_PC + pcoffset) s;
          (v, s2) = mem_read a s1;
          s3 = s2\<lparr>regs := (regs s2)(r0 := v)\<rparr>
      in update_flags r0 s3)"

definition op_ldr :: "u16 \<Rightarrow> vm \<Rightarrow> vm" where
  "op_ldr instr s =
     (let r0 = unat (drop_bit 9 instr AND 0x7);
          r1 = unat (drop_bit 6 instr AND 0x7);
          offset_6 = sign_extend (instr AND 0x3F) 6;
          (v, s1) = mem_read (regs s r1 + offset_6) s;
          s2 = s1\<lparr>regs := (regs s1)(r0 := v)\<rparr>
      in update_flags r0 s2)"

definition op_lea :: "u16 \<Rightarrow> vm \<Rightarrow> vm" where
  "op_lea instr s =
     (let r0 = unat (drop_bit 9 instr AND 0x7);
          pcoffset = sign_extend (instr AND 0x1FF) 9;
          s1 = s\<lparr>regs := (regs s)(r0 := regs s R_PC + pcoffset)\<rparr>
      in update_flags r0 s1)"

definition op_st :: "u16 \<Rightarrow> vm \<Rightarrow> vm" where
  "op_st instr s =
     (let r0 = unat (drop_bit 9 instr AND 0x7);
          pcoffset = sign_extend (instr AND 0x1FF) 9
      in mem_write (regs s R_PC + pcoffset) (regs s r0) s)"

definition op_sti :: "u16 \<Rightarrow> vm \<Rightarrow> vm" where
  "op_sti instr s =
     (let r0 = unat (drop_bit 9 instr AND 0x7);
          pcoffset = sign_extend (instr AND 0x1FF) 9;
          (a, s1) = mem_read (regs s R_PC + pcoffset) s
      in mem_write a (regs s1 r0) s1)"

definition op_str :: "u16 \<Rightarrow> vm \<Rightarrow> vm" where
  "op_str instr s =
     (let r0 = unat (drop_bit 9 instr AND 0x7);
          r1 = unat (drop_bit 6 instr AND 0x7);
          pcoffset = sign_extend (instr AND 0x3F) 6
      in mem_write (regs s r1 + pcoffset) (regs s r0) s)"

section \<open>Trap handlers\<close>

definition trap_getc :: "vm \<Rightarrow> vm" where
  "trap_getc s =
     (let (ch, s1) = getchar s;
          s2 = s1\<lparr>regs := (regs s1)(R_R0 := word_of_int ch)\<rparr>
      in update_flags R_R0 s2)"

definition trap_out :: "vm \<Rightarrow> vm" where
  "trap_out s = putc (ucast (regs s R_R0)) s"

text \<open>
  The loops of PUTS and PUTSP walk a pointer \<open>uint16_t*\<close> from \<open>memory + regs[R_R0]\<close>
  upwards; the pointer is an index into \<open>memory\<close> here. It does not wrap at 16 bits: a
  string with no terminating zero word up to the last cell runs off the array.
\<close>

function puts_loop :: "nat \<Rightarrow> vm \<Rightarrow> fault + vm" where
  "puts_loop c s =
     (if MEMORY_MAX \<le> c then Inl OutOfBounds
      else if memory s (of_nat c) \<noteq> 0
      then puts_loop (c + 1) (putc (ucast (memory s (of_nat c))) s)
      else Inr s)"
  by pat_completeness auto
termination
  by (relation "measure (\<lambda>(c, s). MEMORY_MAX - c)") auto

definition trap_puts :: "vm \<Rightarrow> fault + vm" where
  "trap_puts s = puts_loop (unat (regs s R_R0)) s"

text \<open>
  In the IN case the value stored in R0 is \<open>(uint16_t)c\<close>, where \<open>c\<close> is the pointer
  variable declared in the PUTS case of the same \<open>switch\<close>; the character read is in
  \<open>ch\<close>. No statement on this path assigns \<open>c\<close>, so its low 16 bits are whatever the
  variable holds: the parameter \<open>c\<close>.
\<close>

definition trap_in :: "u16 \<Rightarrow> vm \<Rightarrow> vm" where
  "trap_in c s =
     (let s1 = printf ''Enter a character: '' s;
          (r, s2) = getchar s1;
          ch = (word_of_int r :: u8);
          s3 = putc ch s2;
          s4 = s3\<lparr>regs := (regs s3)(R_R0 := c)\<rparr>
      in update_flags R_R0 s4)"

function putsp_loop :: "nat \<Rightarrow> vm \<Rightarrow> fault + vm" where
  "putsp_loop sp s =
     (if MEMORY_MAX \<le> sp then Inl OutOfBounds
      else if memory s (of_nat sp) \<noteq> 0
      then (let char1 = (ucast (memory s (of_nat sp) AND 0xFF) :: u8);
                s1 = putc char1 s;
                char2 = (ucast (drop_bit 8 (memory s (of_nat sp))) :: u8);
                s2 = (if char2 \<noteq> 0 then putc char2 s1 else s1)
            in putsp_loop (sp + 1) s2)
      else Inr s)"
  by pat_completeness auto
termination
  by (relation "measure (\<lambda>(sp, s). MEMORY_MAX - sp)") auto

definition trap_putsp :: "vm \<Rightarrow> fault + vm" where
  "trap_putsp s = putsp_loop (unat (regs s R_R0)) s"

definition trap_halt :: "vm \<Rightarrow> vm" where
  "trap_halt s = (printf (''HALT'' @ [CHR 0x0A]) s)\<lparr>running := False\<rparr>"

definition op_trap :: "u16 \<Rightarrow> u16 \<Rightarrow> vm \<Rightarrow> fault + vm" where
  "op_trap c instr s =
     (let s1 = s\<lparr>regs := (regs s)(R_R7 := regs s R_PC)\<rparr>;
          vect = instr AND 0xFF
      in if vect = TRAP_GETC then Inr (trap_getc s1)
         else if vect = TRAP_OUT then Inr (trap_out s1)
         else if vect = TRAP_PUTS then trap_puts s1
         else if vect = TRAP_IN then Inr (trap_in c s1)
         else if vect = TRAP_PUTSP then trap_putsp s1
         else if vect = TRAP_HALT then Inr (trap_halt s1)
         else Inr s1)"

section \<open>Executive loop\<close>

text \<open>The \<open>switch (op)\<close>; RES, RTI and \<open>default\<close> share the empty last case.\<close>

definition dispatch :: "u16 \<Rightarrow> u16 \<Rightarrow> vm \<Rightarrow> fault + vm" where
  "dispatch c instr s =
     (let op = drop_bit 12 instr
      in if op = OP_ADD then Inr (op_add instr s)
         else if op = OP_AND then Inr (op_and instr s)
         else if op = OP_NOT then Inr (op_not instr s)
         else if op = OP_BR then Inr (op_br instr s)
         else if op = OP_JMP then Inr (op_jmp instr s)
         else if op = OP_JSR then Inr (op_jsr instr s)
         else if op = OP_LD then Inr (op_ld instr s)
         else if op = OP_LDI then Inr (op_ldi instr s)
         else if op = OP_LDR then Inr (op_ldr instr s)
         else if op = OP_LEA then Inr (op_lea instr s)
         else if op = OP_ST then Inr (op_st instr s)
         else if op = OP_STI then Inr (op_sti instr s)
         else if op = OP_STR then Inr (op_str instr s)
         else if op = OP_TRAP then op_trap c instr s
         else Inr s)"

text \<open>\<open>instr = mem_read(regs[R_PC]++)\<close>: the fetched word and the state after the fetch.\<close>

definition fetch :: "vm \<Rightarrow> u16 \<times> vm" where
  "fetch s =
     (let pc = regs s R_PC;
          s1 = s\<lparr>regs := (regs s)(R_PC := pc + 1)\<rparr>
      in mem_read pc s1)"

text \<open>One turn of the \<open>while (running)\<close> loop.\<close>

definition step :: "u16 \<Rightarrow> vm \<Rightarrow> fault + vm" where
  "step c s = (let (instr, s1) = fetch s in dispatch c instr s1)"

text \<open>
  \<open>handle_interrupt\<close> is installed for SIGINT; it ends the process with \<open>exit(-2)\<close>.
  A process ends with the argument of \<open>exit\<close> (or the value returned by \<open>main\<close>) and
  the state it leaves behind, or in undefined behaviour.
\<close>

datatype outcome = Exit int vm | Undefined fault

definition handle_interrupt :: "vm \<Rightarrow> outcome" where
  "handle_interrupt s =
     (let s1 = restore_input_buffering s;
          s2 = printf [CHR 0x0A] s1
      in Exit (- 2) s2)"

text \<open>
  The \<open>while (running)\<close> loop. It need not end, so it runs on fuel: \<open>None\<close> says that the
  fuel did not suffice. \<open>cs\<close> gives, turn by turn, the indeterminate value of the pointer
  variable \<open>c\<close>. \<open>sigint = Some k\<close> delivers SIGINT after \<open>k\<close> more turns of the loop,
  \<open>None\<close> never.
\<close>

fun run :: "nat \<Rightarrow> (nat \<Rightarrow> u16) \<Rightarrow> nat option \<Rightarrow> vm \<Rightarrow> (outcome + vm) option" where
  "run fuel cs sigint s =
     (if \<not> running s then Some (Inr s)
      else if sigint = Some 0 then Some (Inl (handle_interrupt s))
      else case fuel of
             0 \<Rightarrow> None
           | Suc n \<Rightarrow>
               (case step (cs 0) s of
                  Inl f \<Rightarrow> Some (Inl (Undefined f))
                | Inr s' \<Rightarrow> run n (\<lambda>i. cs (Suc i)) (map_option (\<lambda>k. k - 1) sigint) s'))"

section \<open>Image loader\<close>

text \<open>
  \<open>fread\<close> copies the bytes of the file into objects of two bytes each; on the
  little-endian host the code is written for, the first byte of a pair is the low byte.
  It returns the whole elements it could read, at most \<open>nmemb\<close>, and the rest of the file.
  A last element cut in the middle is not counted and the call returns as usual; C leaves
  the value of such an element indeterminate, and the model stores nothing for it.
\<close>

fun host_items :: "u8 list \<Rightarrow> u16 list" where
  "host_items (b0 # b1 # bs) = (ucast b0 OR push_bit 8 (ucast b1)) # host_items bs"
| "host_items bs = []"

definition fread :: "nat \<Rightarrow> u8 list \<Rightarrow> u16 list \<times> u8 list" where
  "fread nmemb file =
     (let items = take nmemb (host_items file);
          rest = drop (2 * length items) file
      in (items, rest))"

text \<open>\<open>fread(p, ...)\<close> writes the elements to \<open>p[0]\<close>, \<open>p[1]\<close>, ...\<close>

fun store_items :: "nat \<Rightarrow> u16 list \<Rightarrow> (u16 \<Rightarrow> u16) \<Rightarrow> (u16 \<Rightarrow> u16)" where
  "store_items p [] m = m"
| "store_items p (x # xs) m = store_items (p + 1) xs (m(of_nat p := x))"

text \<open>\<open>while (read-- > 0) { *p = swap_16(*p); ++p; }\<close>\<close>

fun swap_loop :: "nat \<Rightarrow> nat \<Rightarrow> (u16 \<Rightarrow> u16) \<Rightarrow> (u16 \<Rightarrow> u16)" where
  "swap_loop 0 p m = m"
| "swap_loop (Suc read) p m = swap_loop read (p + 1) (m(of_nat p := swap_16 (m (of_nat p))))"

text \<open>
  \<open>MEMORY_MAX - origin\<close> is computed in \<open>int\<close> and stored in the \<open>uint16_t max_read\<close>.
  The function has no failing path: it always returns, \<open>Inr\<close> in the result type its
  caller shares with the instruction handlers. When the file is too short for the first
  element, \<open>origin\<close> is not assigned; the file is used up then, so the second \<open>fread\<close>
  reads no element and the loop does not run: memory stays as it is whatever \<open>origin\<close>
  holds.
\<close>

definition read_image_file :: "u8 list \<Rightarrow> vm \<Rightarrow> fault + vm" where
  "read_image_file file s =
     (case fread 1 file of
        ([], rest) \<Rightarrow> Inr s
      | (origin_raw # _, rest) \<Rightarrow>
          (let origin = swap_16 origin_raw;
               max_read = (word_of_nat (MEMORY_MAX - unat origin) :: u16);
               p = unat origin;
               (items, _) = fread (unat max_read) rest
           in Inr (s\<lparr>memory := swap_loop (length items) p (store_items p items (memory s))\<rparr>)))"

text \<open>The files that can be opened are a map from paths to contents.\<close>

definition read_image :: "(string \<rightharpoonup> u8 list) \<Rightarrow> string \<Rightarrow> vm \<Rightarrow> fault + (int \<times> vm)" where
  "read_image fs image_path s =
     (case fs image_path of
        None \<Rightarrow> Inr (0, s)
      | Some file \<Rightarrow>
          (case read_image_file file s of Inl f \<Rightarrow> Inl f | Inr s' \<Rightarrow> Inr (1, s')))"

section \<open>The program\<close>

text \<open>The loop over \<open>argv[1..]\<close>: \<open>Inl\<close> when the process ends there.\<close>

fun load_images :: "(string \<rightharpoonup> u8 list) \<Rightarrow> string list \<Rightarrow> vm \<Rightarrow> outcome + vm" where
  "load_images fs [] s = Inr s"
| "load_images fs (path # paths) s =
     (case read_image fs path s of
        Inl f \<Rightarrow> Inl (Undefined f)
      | Inr (ok, s') \<Rightarrow>
          if ok = 0
          then Inl (Exit 1 (printf (''failed to load image: '' @ path @ [CHR 0x0A]) s'))
          else load_images fs paths s')"

definition PC_START :: u16 where "PC_START = 0x3000"

text \<open>
  \<open>main\<close>, from a state whose registers and memory are zero-initialised globals. Leaving
  the loop, control reaches the closing brace of \<open>main\<close>, which returns 0.
\<close>

definition main ::
  "32 word \<Rightarrow> 32 word \<Rightarrow> (string \<rightharpoonup> u8 list) \<Rightarrow> (nat \<Rightarrow> u16) \<Rightarrow> nat option \<Rightarrow> nat \<Rightarrow>
   string list \<Rightarrow> vm \<Rightarrow> outcome option" where
  "main ICANON ECHO fs cs sigint fuel argv s =
     (let s1 = disable_input_buffering ICANON ECHO s
      in if length argv < 2
         then Some (Exit 2 (printf (''lc3 [image-file]...'' @ [CHR 0x0A]) s1))
         else case load_images fs (tl argv) s1 of
                Inl out \<Rightarrow> Some out
              | Inr s2 \<Rightarrow>
                  (let s3 = s2\<lparr>regs := (regs s2)(R_COND := FL_ZRO)\<rparr>;
                       s4 = s3\<lparr>regs := (regs s3)(R_PC := PC_START)\<rparr>;
                       s5 = s4\<lparr>running := True\<rparr>
                   in case run fuel cs sigint s5 of
                        None \<Rightarrow> None
                      | Some (Inl out) \<Rightarrow> Some out
                      | Some (Inr s6) \<Rightarrow> Some (Exit 0 s6)))"

section \<open>Notions used to state the properties\<close>

text \<open>
  The flag a 16-bit value calls for when read as a two's-complement number.
\<close>

definition sign_flag :: "u16 \<Rightarrow> u16" where
  "sign_flag v = (if sint v = 0 then FL_ZRO else if sint v < 0 then FL_NEG else FL_POS)"

definition cond_ok :: "vm \<Rightarrow> bool" where
  "cond_ok s \<longleftrightarrow> regs s R_COND = FL_POS \<or> regs s R_COND = FL_ZRO \<or> regs s R_COND = FL_NEG"

text \<open>
  The register an instruction passes to \<open>update_flags\<close>, for the instructions whose case
  calls it: ADD, AND, NOT, LD, LDI, LDR, LEA with their DR field, and the GETC and IN traps
  with R0.
\<close>

definition flag_dest :: "u16 \<Rightarrow> nat option" where
  "flag_dest instr =
     (let op = drop_bit 12 instr
      in if op \<in> {OP_ADD, OP_AND, OP_NOT, OP_LD, OP_LDI, OP_LDR, OP_LEA}
         then Some (unat (drop_bit 9 instr AND 0x7))
         else if op = OP_TRAP \<and> (instr AND 0xFF = TRAP_GETC \<or> instr AND 0xFF = TRAP_IN)
         then Some R_R0
         else None)"

text \<open>
  The state after as many turns of the loop as \<open>cs\<close> has entries (fewer when the loop
  ends before), without signals.
\<close>

fun steps :: "u16 list \<Rightarrow> vm \<Rightarrow> fault + vm" where
  "steps [] s = Inr s"
| "steps (c # cs) s =
     (if running s
      then (case step c s of Inl f \<Rightarrow> Inl f | Inr s' \<Rightarrow> steps cs s')
      else Inr s)"

text \<open>What \<open>main\<close> establishes before it enters the loop.\<close>

definition initial :: "vm \<Rightarrow> bool" where
  "initial s \<longleftrightarrow> regs s R_COND = FL_ZRO \<and> regs s R_PC = PC_START \<and> running s"

text \<open>
  A concrete machine inside the loop: its program counter, the memory cells and the
  registers R0..R7 that are not zero, and the bytes pending on standard input. COND is ZRO.
  Standard input is a terminal with these bytes typed and none of them buffered yet:
  \<open>select\<close> answers 1 as long as one of them is left and 0 afterwards.
\<close>

definition machine :: "u16 \<Rightarrow> (u16 \<times> u16) list \<Rightarrow> (nat \<times> u16) list \<Rightarrow> u8 list \<Rightarrow> vm" where
  "machine pc cells rs inp =
     \<lparr>memory = (\<lambda>a. case map_of cells a of None \<Rightarrow> 0 | Some v \<Rightarrow> v),
      regs = (\<lambda>r. if r = R_PC then pc else if r = R_COND then FL_ZRO
                   else case map_of rs r of None \<Rightarrow> 0 | Some v \<Rightarrow> v),
      running = True,
      original_tio = \<lparr>c_lflag = 0\<rparr>, terminal = \<lparr>c_lflag = 0\<rparr>,
      stdin = inp, stdout = [],
      select_oracle = (\<lambda>n bs. if bs \<noteq> [] then 1 else 0), select_calls = 0\<rparr>"


text \<open>
  A process at the entry of \<open>main\<close>: the globals are zero, the terminal has the given
  local-mode flags.
\<close>

definition process_start :: "32 word \<Rightarrow> u8 list \<Rightarrow> vm" where
  "process_start lflag inp =
     \<lparr>memory = (\<lambda>a. 0), regs = (\<lambda>r. 0), running = False,
      original_tio = \<lparr>c_lflag = 0\<rparr>, terminal = \<lparr>c_lflag = lflag\<rparr>,
      stdin = inp, stdout = [],
      select_oracle = (\<lambda>n bs. if bs \<noteq> [] then 1 else 0), select_calls = 0\<rparr>"

text \<open>
  An image file: the origin, then the payload words, each as its high byte followed by
  its low byte.
\<close>

definition be_bytes :: "u16 \<Rightarrow> u8 list" where
  "be_bytes w = [ucast (drop_bit 8 w), ucast w]"

definition image_file :: "u16 \<Rightarrow> u16 list \<Rightarrow> u8 list" where
  "image_file origin ws = be_bytes origin @ concat (map be_bytes ws)"

section \<open>Properties of the utilities\<close>

lemma bit_and_1_iff: "w AND 1 \<noteq> 0 \<longleftrightarrow> bit w 0" for w :: "'a::len word"
  by (simp add: and_one_eq bit_0 odd_iff_mod_2_eq_one)

lemma promoted_bit: "drop_bit k (ucast x :: c_int) AND 1 \<noteq> 0 \<longleftrightarrow> bit x k" for x :: u16
  by (auto simp add: bit_and_1_iff bit_simps dest: bit_imp_le_length)

lemma byte_masks: "(0xFF :: u16) = mask 8" "(0xFF00 :: u16) = push_bit 8 (mask 8)"
  by (simp_all add: mask_eq_exp_minus_1)

lemma int_mask_16: "(0xFFFF :: c_int) = mask 16"
  by (simp add: mask_eq_exp_minus_1)

lemma sign_extend_set:
  "bit x (nat (n - 1)) \<Longrightarrow> 1 \<le> n \<Longrightarrow> n \<le> 16 \<Longrightarrow>
   sign_extend x n = x OR NOT (push_bit (nat n) 1 - 1)"
  unfolding sign_extend_def promoted_bit int_mask_16
  apply (simp flip: mask_eq_exp_minus_1)
  apply (rule bit_word_eqI)
  apply (auto simp add: bit_simps)
  done

lemma sign_extend_clear: "\<not> bit x (nat (n - 1)) \<Longrightarrow> sign_extend x n = x"
  unfolding sign_extend_def promoted_bit by simp

lemma and_low_mask_id: "x AND (push_bit n 1 - 1) = x \<longleftrightarrow> unat x < 2 ^ n" for x :: u16
proof -
  have "x AND (push_bit n 1 - 1) = take_bit n x"
    by (simp add: take_bit_eq_mask mask_eq_exp_minus_1)
  moreover have "take_bit n x = x \<longleftrightarrow> unat (take_bit n x) = unat x"
    by (simp add: word_unat_eq_iff)
  moreover have "unat (take_bit n x) = take_bit n (unat x)"
    by (simp add: unsigned_take_bit_eq)
  ultimately show ?thesis
    by (simp add: take_bit_nat_eq_self_iff)
qed

lemma swap_16_bytes: "swap_16 x = push_bit 8 (x AND 0xFF) OR drop_bit 8 x"
  unfolding swap_16_def byte_masks
  by (rule bit_word_eqI) (auto simp add: bit_simps)

lemma swap_16_twice: "swap_16 (swap_16 x) = x"
  unfolding swap_16_bytes byte_masks
  by (rule bit_word_eqI) (auto simp add: bit_simps)

section \<open>Frame properties and the condition flags\<close>

lemma unat_and_7: "unat (w AND 7) < 8" for w :: u16
proof -
  have "unat (w AND 7) \<le> unat (7 :: u16)"
    by (rule word_and_le1 [THEN word_le_nat_alt [THEN iffD1]])
  then show ?thesis by simp
qed

lemma and_7_neq [simp]:
  "unat (w AND 7) \<noteq> R_PC" "unat (w AND 7) \<noteq> R_COND"
  "R_PC \<noteq> unat (w AND 7)" "R_COND \<noteq> unat (w AND 7)" for w :: u16
  using unat_and_7 [of w] by (auto simp: reg_defs)

lemma mem_read_frame [simp]:
  "regs (snd (mem_read a s)) = regs s"
  "running (snd (mem_read a s)) = running s"
  "terminal (snd (mem_read a s)) = terminal s"
  "original_tio (snd (mem_read a s)) = original_tio s"
  "stdout (snd (mem_read a s)) = stdout s"
  by (simp_all add: mem_read_def check_key_def select_stdin_def Let_def getchar_def
      split: list.split prod.split)

lemma drop_bit_15_iff: "drop_bit 15 v \<noteq> 0 \<longleftrightarrow> sint v < 0" for v :: u16
proof -
  have "drop_bit 15 v \<noteq> 0 \<longleftrightarrow> bit v 15"
    apply (auto simp add: bit_eq_iff bit_simps)
    subgoal for n using bit_imp_le_length [of v "15 + n"] by (cases n) auto
    subgoal by (rule exI [of _ 0]) simp
    done
  then show ?thesis using bit_last_iff [of v] by simp
qed

lemma update_flags_regs:
  "regs (update_flags r s) = (regs s)(R_COND := sign_flag (regs s r))"
  by (simp add: update_flags_def sign_flag_def drop_bit_15_iff signed_eq_0_iff)

lemma update_flags_frame [simp]:
  "memory (update_flags r s) = memory s"
  "running (update_flags r s) = running s"
  "terminal (update_flags r s) = terminal s"
  "stdin (update_flags r s) = stdin s"
  "stdout (update_flags r s) = stdout s"
  by (simp_all add: update_flags_def)

lemma sign_flag_cases: "sign_flag v = FL_POS \<or> sign_flag v = FL_ZRO \<or> sign_flag v = FL_NEG"
  by (simp add: sign_flag_def)

lemma cond_ok_update_flags [simp]: "cond_ok (update_flags r s)"
  using sign_flag_cases by (simp add: cond_ok_def update_flags_regs)

lemma cond_ok_handlers:
  "cond_ok (op_add instr s)" "cond_ok (op_and instr s)" "cond_ok (op_not instr s)"
  "cond_ok (op_ld instr s)" "cond_ok (op_ldi instr s)" "cond_ok (op_ldr instr s)"
  "cond_ok (op_lea instr s)" "cond_ok (trap_getc s)" "cond_ok (trap_in c s)"
  by (simp_all add: op_add_def op_and_def op_not_def op_ld_def op_ldi_def op_ldr_def op_lea_def
      trap_getc_def trap_in_def Let_def split_def)

lemma puts_loop_regs: "puts_loop c s = Inr s' \<Longrightarrow> regs s' = regs s \<and> running s' = running s \<and> memory s' = memory s"
proof (induction c s rule: puts_loop.induct)
  case (1 c s)
  then show ?case
    by (subst (asm) (2) puts_loop.simps) (auto simp: putc_def split: if_splits)
qed

lemma putsp_loop_regs: "putsp_loop c s = Inr s' \<Longrightarrow> regs s' = regs s \<and> running s' = running s \<and> memory s' = memory s"
proof (induction c s rule: putsp_loop.induct)
  case (1 c s)
  then show ?case
    by (subst (asm) (2) putsp_loop.simps) (auto simp: putc_def Let_def split: if_splits)
qed

lemma cond_keep:
  "regs (op_br instr s) R_COND = regs s R_COND"
  "regs (op_jmp instr s) R_COND = regs s R_COND"
  "regs (op_jsr instr s) R_COND = regs s R_COND"
  "regs (op_st instr s) R_COND = regs s R_COND"
  "regs (op_sti instr s) R_COND = regs s R_COND"
  "regs (op_str instr s) R_COND = regs s R_COND"
  "regs (trap_out s) R_COND = regs s R_COND"
  "regs (trap_halt s) R_COND = regs s R_COND"
  by (simp_all add: op_br_def op_jmp_def op_jsr_def op_st_def op_sti_def op_str_def trap_out_def
      trap_halt_def Let_def split_def mem_write_def putc_def printf_def reg_defs)

lemma cond_ok_trap:
  assumes "cond_ok s" and "op_trap c instr s = Inr s'"
  shows "cond_ok s'"
proof -
  define s1 where "s1 = s\<lparr>regs := (regs s)(R_R7 := regs s R_PC)\<rparr>"
  have s1: "cond_ok s1"
    using assms(1) by (simp add: s1_def cond_ok_def reg_defs)
  have "s' = trap_getc s1 \<or> s' = trap_out s1 \<or> trap_puts s1 = Inr s' \<or> s' = trap_in c s1
      \<or> trap_putsp s1 = Inr s' \<or> s' = trap_halt s1 \<or> s' = s1"
    using assms(2) unfolding op_trap_def Let_def s1_def [symmetric]
    by (simp split: if_splits)
  then consider (getc) "s' = trap_getc s1" | (out) "s' = trap_out s1"
    | (puts) "trap_puts s1 = Inr s'" | (inp) "s' = trap_in c s1"
    | (putsp) "trap_putsp s1 = Inr s'" | (halt) "s' = trap_halt s1" | (none) "s' = s1"
    by blast
  then show ?thesis
  proof cases
    case getc then show ?thesis by (simp add: cond_ok_handlers)
  next
    case out then show ?thesis using s1 by (simp add: cond_ok_def cond_keep)
  next
    case puts
    then have "regs s' = regs s1" unfolding trap_puts_def by (rule puts_loop_regs [THEN conjunct1])
    then show ?thesis using s1 by (simp add: cond_ok_def)
  next
    case inp then show ?thesis by (simp add: cond_ok_handlers)
  next
    case putsp
    then have "regs s' = regs s1" unfolding trap_putsp_def by (rule putsp_loop_regs [THEN conjunct1])
    then show ?thesis using s1 by (simp add: cond_ok_def)
  next
    case halt then show ?thesis using s1 by (simp add: cond_ok_def cond_keep)
  next
    case none then show ?thesis using s1 by simp
  qed
qed


lemma cond_ok_dispatch:
  assumes "cond_ok s" and "dispatch c instr s = Inr s'"
  shows "cond_ok s'"
proof -
  have "s' \<in> {op_add instr s, op_and instr s, op_not instr s, op_ld instr s, op_ldi instr s,
          op_ldr instr s, op_lea instr s}
      \<or> s' \<in> {op_br instr s, op_jmp instr s, op_jsr instr s, op_st instr s, op_sti instr s,
          op_str instr s, s}
      \<or> op_trap c instr s = Inr s'"
    using assms(2) unfolding dispatch_def Let_def by (simp split: if_splits)
  then consider (flags) "s' \<in> {op_add instr s, op_and instr s, op_not instr s, op_ld instr s,
          op_ldi instr s, op_ldr instr s, op_lea instr s}"
    | (keep) "s' \<in> {op_br instr s, op_jmp instr s, op_jsr instr s, op_st instr s, op_sti instr s,
          op_str instr s, s}"
    | (trap) "op_trap c instr s = Inr s'"
    by blast
  then show ?thesis
  proof cases
    case flags then show ?thesis by (auto simp: cond_ok_handlers)
  next
    case keep then show ?thesis using assms(1) by (auto simp: cond_ok_def cond_keep)
  next
    case trap with assms(1) show ?thesis by (rule cond_ok_trap)
  qed
qed

lemma fetch_regs: "regs (snd (fetch s)) = (regs s)(R_PC := regs s R_PC + 1)"
  by (simp add: fetch_def Let_def)

lemma cond_ok_step: "cond_ok s \<Longrightarrow> step c s = Inr s' \<Longrightarrow> cond_ok s'"
proof -
  assume a: "cond_ok s" and b: "step c s = Inr s'"
  have "cond_ok (snd (fetch s))" using a by (simp add: cond_ok_def fetch_regs reg_defs)
  with b show ?thesis
    by (auto simp: step_def split_def Let_def intro: cond_ok_dispatch)
qed

section \<open>Claims about the utilities\<close>

theorem sign_extend_counterexample:
  "\<not> bit (0x100 :: u16) (nat (5 - 1)) \<and> sign_extend 0x100 5 \<noteq> 0x100 AND (push_bit (nat 5) 1 - 1)"
  by (simp add: sign_extend_def bit_iff_odd_drop_bit)

text \<open>
  C6, as the code has it. For a 16-bit \<open>x\<close> and \<open>1 \<le> n \<le> 16\<close>: when bit \<open>n - 1\<close> of
  \<open>x\<close> is 0, \<open>sign_extend\<close> returns \<open>x\<close> unchanged, and this is \<open>x & ((1<<n)-1)\<close> exactly
  when \<open>x\<close> has no bit set at position \<open>n\<close> or above (as at every call site, which masks
  the field first); when bit \<open>n - 1\<close> is 1, it returns \<open>x | ~((1<<n)-1)\<close> in 16 bits.
\<close>

theorem sign_extend_cases:
  assumes "1 \<le> n" and "n \<le> 16"
  shows "(\<not> bit x (nat (n - 1)) \<longrightarrow>
            sign_extend x n = x \<and>
            (sign_extend x n = x AND (push_bit (nat n) 1 - 1) \<longleftrightarrow> unat x < 2 ^ nat n))
       \<and> (bit x (nat (n - 1)) \<longrightarrow> sign_extend x n = x OR NOT (push_bit (nat n) 1 - 1))"
proof (cases "bit x (nat (n - 1))")
  case True
  then show ?thesis using assms by (simp add: sign_extend_set)
next
  case False
  then have "sign_extend x n = x" by (rule sign_extend_clear)
  then show ?thesis using False and_low_mask_id [of x "nat n"] by (simp add: eq_commute)
qed

theorem sign_extend_cases_witness:
  "(1 :: int) \<le> 5 \<and> (5 :: int) \<le> 16 \<and> \<not> bit (0x0F :: u16) (nat (5 - 1)) \<and> bit (0x1F :: u16) (nat (5 - 1))
   \<and> sign_extend 0x0F 5 = 0x0F \<and> sign_extend 0x0F 5 = 0x0F AND (push_bit (nat 5) 1 - 1)
   \<and> sign_extend 0x1F 5 = 0xFFFF"
  using sign_extend_cases [of 5 "0x0F"] sign_extend_cases [of 5 "0x1F"]
  by (simp add: bit_iff_odd_drop_bit)

text \<open>
  C9. For every 16-bit \<open>x\<close>, \<open>swap_16 x\<close> is \<open>((x & 0xFF) << 8) | (x >> 8)\<close>, and swapping
  twice gives \<open>x\<close> back.
\<close>

theorem swap_16_involution:
  "swap_16 x = push_bit 8 (x AND 0xFF) OR drop_bit 8 x \<and> swap_16 (swap_16 x) = x"
  by (rule conjI [OF swap_16_bytes swap_16_twice])

section \<open>Claims about the memory interface\<close>




section \<open>Claims about single instructions\<close>

lemma fetch_frame:
  "running (snd (fetch s)) = running s"
  "terminal (snd (fetch s)) = terminal s"
  "stdout (snd (fetch s)) = stdout s"
  by (simp_all add: fetch_def Let_def)

lemma fetch_plain:
  "regs s R_PC \<noteq> MR_KBSR \<Longrightarrow>
   fetch s = (memory s (regs s R_PC), s\<lparr>regs := (regs s)(R_PC := regs s R_PC + 1)\<rparr>)"
  by (simp add: fetch_def Let_def mem_read_def)

lemma step_fetch: "fetch s = (instr, s1) \<Longrightarrow> step c s = dispatch c instr s1"
  by (simp add: step_def)

lemma dispatch_add: "drop_bit 12 instr = OP_ADD \<Longrightarrow> dispatch c instr s = Inr (op_add instr s)"
  by (simp add: dispatch_def)

lemma dispatch_jsr: "drop_bit 12 instr = OP_JSR \<Longrightarrow> dispatch c instr s = Inr (op_jsr instr s)"
  by (simp add: dispatch_def op_defs)

lemma dispatch_noop:
  "drop_bit 12 instr = OP_RES \<or> drop_bit 12 instr = OP_RTI \<Longrightarrow> dispatch c instr s = Inr s"
  by (auto simp add: dispatch_def op_defs)

lemma dispatch_trap: "drop_bit 12 instr = OP_TRAP \<Longrightarrow> dispatch c instr s = op_trap c instr s"
  by (simp add: dispatch_def op_defs)

text \<open>
  C8. ADD stores the sum of its operands modulo \<open>2^16\<close>; in particular the instruction
  \<open>0x127F\<close> (ADD R1,R1,#-1), executed with R1 = 0, leaves R1 = \<open>0xFFFF\<close> and COND = NEG.
\<close>

theorem add_wraps:
  "(drop_bit 12 (fst (fetch s)) = OP_ADD \<longrightarrow>
      (\<exists>s'. step c s = Inr s'
         \<and> unat (regs s' (unat (drop_bit 9 (fst (fetch s)) AND 0x7)))
           = (unat (regs (snd (fetch s)) (unat (drop_bit 6 (fst (fetch s)) AND 0x7)))
              + unat (if drop_bit 5 (fst (fetch s)) AND 0x1 \<noteq> 0
                      then sign_extend (fst (fetch s) AND 0x1F) 5
                      else regs (snd (fetch s)) (unat (fst (fetch s) AND 0x7)))) mod 2 ^ 16))
   \<and> (fst (fetch s) = 0x127F \<and> regs s R_R1 = 0 \<longrightarrow>
      (\<exists>s'. step c s = Inr s' \<and> regs s' R_R1 = 0xFFFF \<and> regs s' R_COND = FL_NEG))"
proof (intro conjI impI)
  assume op: "drop_bit 12 (fst (fetch s)) = OP_ADD"
  obtain instr s1 where f: "fetch s = (instr, s1)" by (cases "fetch s")
  with op have "step c s = Inr (op_add instr s1)"
    by (simp add: step_fetch dispatch_add)
  moreover have "unat (regs (op_add instr s1) (unat (drop_bit 9 instr AND 0x7)))
           = (unat (regs s1 (unat (drop_bit 6 instr AND 0x7)))
              + unat (if drop_bit 5 instr AND 0x1 \<noteq> 0
                      then sign_extend (instr AND 0x1F) 5
                      else regs s1 (unat (instr AND 0x7)))) mod 2 ^ 16"
    by (simp add: op_add_def Let_def update_flags_regs unat_word_ariths)
  ultimately show "\<exists>s'. step c s = Inr s'
         \<and> unat (regs s' (unat (drop_bit 9 (fst (fetch s)) AND 0x7)))
           = (unat (regs (snd (fetch s)) (unat (drop_bit 6 (fst (fetch s)) AND 0x7)))
              + unat (if drop_bit 5 (fst (fetch s)) AND 0x1 \<noteq> 0
                      then sign_extend (fst (fetch s) AND 0x1F) 5
                      else regs (snd (fetch s)) (unat (fst (fetch s) AND 0x7)))) mod 2 ^ 16"
    using f by simp
next
  assume a: "fst (fetch s) = 0x127F \<and> regs s R_R1 = 0"
  obtain s1 where f: "fetch s = (0x127F, s1)" using a by (cases "fetch s") simp
  then have r: "regs s1 = (regs s)(R_PC := regs s R_PC + 1)"
    using fetch_regs [of s] by simp
  have "step c s = Inr (op_add 0x127F s1)"
    using f by (simp add: step_fetch dispatch_add op_defs)
  moreover have "regs (op_add 0x127F s1) R_R1 = 0xFFFF \<and> regs (op_add 0x127F s1) R_COND = FL_NEG"
    using a r by (simp add: op_add_def Let_def update_flags_def sign_extend_def reg_defs fl_defs)
  ultimately show "\<exists>s'. step c s = Inr s' \<and> regs s' R_R1 = 0xFFFF \<and> regs s' R_COND = FL_NEG"
    by simp
qed


theorem add_wraps_witness:
  "drop_bit 12 (fst (fetch (machine 0x3000 [(0x3000, 0x127F)] [] []))) = OP_ADD
   \<and> fst (fetch (machine 0x3000 [(0x3000, 0x127F)] [] [])) = 0x127F
   \<and> regs (machine 0x3000 [(0x3000, 0x127F)] [] []) R_R1 = 0
   \<and> (\<exists>s'. step 0 (machine 0x3000 [(0x3000, 0x127F)] [] []) = Inr s'
          \<and> regs s' R_R1 = 0xFFFF \<and> regs s' R_COND = FL_NEG)"
  using add_wraps [where s = "machine 0x3000 [(0x3000, 0x127F)] [] []" and c = 0]
  by (simp add: fetch_def machine_def mem_read_def Let_def reg_defs mr_defs op_defs)

text \<open>
  C10. JSRR (opcode 0100 with bit 11 clear) whose base register is R7 first writes the
  incremented PC to R7 and then loads PC from R7: PC becomes the address of the instruction
  after the JSRR, not what R7 held before.
\<close>

theorem jsrr_base_r7:
  assumes "drop_bit 12 (fst (fetch s)) = OP_JSR"
    and "drop_bit 11 (fst (fetch s)) AND 1 = 0"
    and "drop_bit 6 (fst (fetch s)) AND 0x7 = 7"
  shows "\<exists>s'. step c s = Inr s' \<and> regs s' R_R7 = regs s R_PC + 1
           \<and> regs s' R_PC = regs s R_PC + 1"
proof -
  obtain instr s1 where f: "fetch s = (instr, s1)" by (cases "fetch s")
  then have r: "regs s1 = (regs s)(R_PC := regs s R_PC + 1)"
    using fetch_regs [of s] by simp
  have "step c s = Inr (op_jsr instr s1)"
    using f assms(1) by (simp add: step_fetch dispatch_jsr)
  moreover have "regs (op_jsr instr s1) R_R7 = regs s R_PC + 1"
    and "regs (op_jsr instr s1) R_PC = regs s R_PC + 1"
    using f assms(2,3) r by (simp_all add: op_jsr_def Let_def reg_defs)
  ultimately show ?thesis by simp
qed

theorem jsrr_base_r7_witness:
  "drop_bit 12 (fst (fetch (machine 0x3000 [(0x3000, 0x41C0)] [(7, 0x5000)] []))) = OP_JSR
   \<and> drop_bit 11 (fst (fetch (machine 0x3000 [(0x3000, 0x41C0)] [(7, 0x5000)] []))) AND 1 = 0
   \<and> drop_bit 6 (fst (fetch (machine 0x3000 [(0x3000, 0x41C0)] [(7, 0x5000)] []))) AND 0x7 = 7
   \<and> regs (machine 0x3000 [(0x3000, 0x41C0)] [(7, 0x5000)] []) R_R7 = 0x5000
   \<and> (\<exists>s'. step 0 (machine 0x3000 [(0x3000, 0x41C0)] [(7, 0x5000)] []) = Inr s'
          \<and> regs s' R_R7 = 0x3001 \<and> regs s' R_PC = 0x3001)"
  using jsrr_base_r7 [where s = "machine 0x3000 [(0x3000, 0x41C0)] [(7, 0x5000)] []" and c = 0]
  by (simp add: fetch_def machine_def mem_read_def Let_def reg_defs mr_defs op_defs)

lemma trap_in_R0: "regs (trap_in c s) R_R0 = c"
  by (simp add: trap_in_def Let_def split_def update_flags_regs reg_defs)

text \<open>
  C1. The IN trap prints the prompt, reads a character and echoes it, but what it stores
  in R0 is the value of the pointer variable \<open>c\<close>, whatever character was read: with
  \<open>A\<close> pending and with \<open>B\<close> pending R0 ends up the same.
\<close>

theorem trap_in_stores_stale_pointer:
  "\<forall>c. (\<exists>s'. step c (machine 0x3000 [(0x3000, 0xF023)] [] [0x41]) = Inr s'
            \<and> regs s' R_R0 = c \<and> stdin s' = []
            \<and> stdout s' = map of_char ''Enter a character: '' @ [0x41])
     \<and> (\<exists>s'. step c (machine 0x3000 [(0x3000, 0xF023)] [] [0x42]) = Inr s'
            \<and> regs s' R_R0 = c \<and> stdin s' = []
            \<and> stdout s' = map of_char ''Enter a character: '' @ [0x42])"
  by (simp add: step_def fetch_def machine_def mem_read_def Let_def reg_defs mr_defs op_defs
      dispatch_def op_trap_def trap_defs trap_in_def printf_def getchar_def putc_def
      update_flags_def)

section \<open>Claims about instructions without effect\<close>

lemma op_trap_unknown:
  "instr AND 0xFF \<notin> {TRAP_GETC, TRAP_OUT, TRAP_PUTS, TRAP_IN, TRAP_PUTSP, TRAP_HALT} \<Longrightarrow>
   op_trap c instr s = Inr (s\<lparr>regs := (regs s)(R_R7 := regs s R_PC)\<rparr>)"
  by (simp add: op_trap_def Let_def)

theorem noop_counterexample:
  "drop_bit 12 (fst (fetch (machine 0x3000 [(0x3000, 0xF0FF)] [] []))) = OP_TRAP
   \<and> fst (fetch (machine 0x3000 [(0x3000, 0xF0FF)] [] [])) AND 0xFF = 0xFF
   \<and> regs (machine 0x3000 [(0x3000, 0xF0FF)] [] []) R_R7 = 0
   \<and> (\<exists>s'. step 0 (machine 0x3000 [(0x3000, 0xF0FF)] [] []) = Inr s' \<and> regs s' R_R7 = 0x3001)
   \<and> drop_bit 12 (fst (fetch (machine 0xFE00 [] [] [0x41]))) = OP_RTI
   \<and> memory (machine 0xFE00 [] [] [0x41]) MR_KBDR = 0
   \<and> (\<exists>s'. step 0 (machine 0xFE00 [] [] [0x41]) = Inr s' \<and> memory s' MR_KBDR = 0x41)"
  by (simp add: step_def fetch_def machine_def mem_read_def Let_def reg_defs mr_defs op_defs
      dispatch_def op_trap_def trap_defs check_key_def select_stdin_def getchar_def)

text \<open>
  C3, as the code has it. An instruction whose opcode is RES or RTI leaves R0..R7, COND,
  the output and the terminal unchanged, and the PC is incremented by the fetch. A TRAP
  whose vector is none of \<open>0x20..0x25\<close> does the same except that R7 receives the
  incremented PC, as for every TRAP. Memory is as the fetch left it: unchanged, unless the
  instruction was fetched from KBSR, where the read polls the keyboard.
\<close>

theorem noop_frame:
  assumes "drop_bit 12 (fst (fetch s)) = OP_RES \<or> drop_bit 12 (fst (fetch s)) = OP_RTI
      \<or> (drop_bit 12 (fst (fetch s)) = OP_TRAP
          \<and> fst (fetch s) AND 0xFF \<notin> {TRAP_GETC, TRAP_OUT, TRAP_PUTS, TRAP_IN, TRAP_PUTSP, TRAP_HALT})"
  shows "\<exists>s'. step c s = Inr s'
      \<and> regs s' R_PC = regs s R_PC + 1
      \<and> regs s' R_COND = regs s R_COND
      \<and> (\<forall>r < 7. regs s' r = regs s r)
      \<and> regs s' R_R7 = (if drop_bit 12 (fst (fetch s)) = OP_TRAP then regs s R_PC + 1 else regs s R_R7)
      \<and> memory s' = memory (snd (fetch s))
      \<and> (regs s R_PC \<noteq> MR_KBSR \<longrightarrow> memory s' = memory s \<and> stdin s' = stdin s)
      \<and> running s' = running s \<and> stdout s' = stdout s \<and> terminal s' = terminal s"
proof -
  obtain instr s1 where f: "fetch s = (instr, s1)" by (cases "fetch s")
  then have r: "regs s1 = (regs s)(R_PC := regs s R_PC + 1)"
    using fetch_regs [of s] by simp
  have fr: "running s1 = running s" "stdout s1 = stdout s" "terminal s1 = terminal s"
    using f fetch_frame [of s] by simp_all
  have pl: "regs s R_PC \<noteq> MR_KBSR \<longrightarrow> memory s1 = memory s \<and> stdin s1 = stdin s"
    using f by (auto simp: fetch_plain)
  show ?thesis
  proof (cases "drop_bit 12 instr = OP_TRAP")
    case True
    with assms f have "step c s = Inr (s1\<lparr>regs := (regs s1)(R_R7 := regs s1 R_PC)\<rparr>)"
      by (simp add: step_fetch dispatch_trap op_trap_unknown op_defs)
    then show ?thesis using f r fr pl True by (simp add: reg_defs)
  next
    case False
    with assms f have "step c s = Inr s1"
      by (simp add: step_fetch dispatch_noop)
    then show ?thesis using f r fr pl False by (simp add: reg_defs)
  qed
qed

theorem noop_frame_witness:
  "drop_bit 12 (fst (fetch (machine 0x3000 [(0x3000, 0xD123)] [(7, 0x5000)] []))) = OP_RES
   \<and> (\<exists>s'. step 0 (machine 0x3000 [(0x3000, 0xD123)] [(7, 0x5000)] []) = Inr s'
        \<and> regs s' R_PC = 0x3001 \<and> regs s' R_R7 = 0x5000
        \<and> memory s' = memory (machine 0x3000 [(0x3000, 0xD123)] [(7, 0x5000)] []))
   \<and> drop_bit 12 (fst (fetch (machine 0x3000 [(0x3000, 0xF0FF)] [(7, 0x5000)] []))) = OP_TRAP
   \<and> fst (fetch (machine 0x3000 [(0x3000, 0xF0FF)] [(7, 0x5000)] [])) AND 0xFF = 0xFF
   \<and> (\<exists>s'. step 0 (machine 0x3000 [(0x3000, 0xF0FF)] [(7, 0x5000)] []) = Inr s'
        \<and> regs s' R_PC = 0x3001 \<and> regs s' R_R7 = 0x3001
        \<and> memory s' = memory (machine 0x3000 [(0x3000, 0xF0FF)] [(7, 0x5000)] []))"
proof -
  let ?A = "machine 0x3000 [(0x3000, 0xD123)] [(7, 0x5000)] []"
  let ?B = "machine 0x3000 [(0x3000, 0xF0FF)] [(7, 0x5000)] []"
  have fa: "fetch ?A = (0xD123, ?A\<lparr>regs := (regs ?A)(R_PC := 0x3001)\<rparr>)"
    by (simp add: fetch_def machine_def mem_read_def Let_def reg_defs mr_defs)
  have fb: "fetch ?B = (0xF0FF, ?B\<lparr>regs := (regs ?B)(R_PC := 0x3001)\<rparr>)"
    by (simp add: fetch_def machine_def mem_read_def Let_def reg_defs mr_defs)
  have ra: "regs ?A R_PC = 0x3000" "regs ?A R_R7 = 0x5000" "regs ?B R_PC = 0x3000"
    by (simp_all add: machine_def reg_defs)
  have na: "regs ?A R_PC \<noteq> MR_KBSR" "regs ?B R_PC \<noteq> MR_KBSR"
    by (simp_all add: machine_def reg_defs mr_defs)
  from noop_frame [where s = ?A and c = 0] noop_frame [where s = ?B and c = 0]
  show ?thesis
    unfolding fa fb fst_conv snd_conv using ra na
    by (auto simp add: op_defs trap_defs)
qed

section \<open>Claims about the condition flags\<close>

lemma flag_handlers:
  "regs (op_add instr s) R_COND = sign_flag (regs (op_add instr s) (unat (drop_bit 9 instr AND 0x7)))"
  "regs (op_and instr s) R_COND = sign_flag (regs (op_and instr s) (unat (drop_bit 9 instr AND 0x7)))"
  "regs (op_not instr s) R_COND = sign_flag (regs (op_not instr s) (unat (drop_bit 9 instr AND 0x7)))"
  "regs (op_ld instr s) R_COND = sign_flag (regs (op_ld instr s) (unat (drop_bit 9 instr AND 0x7)))"
  "regs (op_ldi instr s) R_COND = sign_flag (regs (op_ldi instr s) (unat (drop_bit 9 instr AND 0x7)))"
  "regs (op_ldr instr s) R_COND = sign_flag (regs (op_ldr instr s) (unat (drop_bit 9 instr AND 0x7)))"
  "regs (op_lea instr s) R_COND = sign_flag (regs (op_lea instr s) (unat (drop_bit 9 instr AND 0x7)))"
  "regs (trap_getc s) R_COND = sign_flag (regs (trap_getc s) R_R0)"
  "regs (trap_in c s) R_COND = sign_flag (regs (trap_in c s) R_R0)"
  by (simp_all add: op_add_def op_and_def op_not_def op_ld_def op_ldi_def op_ldr_def op_lea_def
      trap_getc_def trap_in_def Let_def split_def update_flags_regs)
     (simp_all add: reg_defs)

lemma dispatch_flag_ops:
  "drop_bit 12 instr = OP_ADD \<Longrightarrow> dispatch c instr s = Inr (op_add instr s)"
  "drop_bit 12 instr = OP_AND \<Longrightarrow> dispatch c instr s = Inr (op_and instr s)"
  "drop_bit 12 instr = OP_NOT \<Longrightarrow> dispatch c instr s = Inr (op_not instr s)"
  "drop_bit 12 instr = OP_LD \<Longrightarrow> dispatch c instr s = Inr (op_ld instr s)"
  "drop_bit 12 instr = OP_LDI \<Longrightarrow> dispatch c instr s = Inr (op_ldi instr s)"
  "drop_bit 12 instr = OP_LDR \<Longrightarrow> dispatch c instr s = Inr (op_ldr instr s)"
  "drop_bit 12 instr = OP_LEA \<Longrightarrow> dispatch c instr s = Inr (op_lea instr s)"
  by (simp_all add: dispatch_def op_defs)

lemma op_trap_flag_vects:
  "instr AND 0xFF = TRAP_GETC \<Longrightarrow>
   op_trap c instr s = Inr (trap_getc (s\<lparr>regs := (regs s)(R_R7 := regs s R_PC)\<rparr>))"
  "instr AND 0xFF = TRAP_IN \<Longrightarrow>
   op_trap c instr s = Inr (trap_in c (s\<lparr>regs := (regs s)(R_R7 := regs s R_PC)\<rparr>))"
  by (simp_all add: op_trap_def Let_def trap_defs)

lemma dispatch_flag_dest:
  assumes "flag_dest instr = Some d" and "dispatch c instr s = Inr s'"
  shows "regs s' R_COND = sign_flag (regs s' d)"
proof (cases "drop_bit 12 instr \<in> {OP_ADD, OP_AND, OP_NOT, OP_LD, OP_LDI, OP_LDR, OP_LEA}")
  case True
  with assms(1) have d: "d = unat (drop_bit 9 instr AND 0x7)"
    by (simp add: flag_dest_def Let_def)
  from True assms(2) have "s' \<in> {op_add instr s, op_and instr s, op_not instr s, op_ld instr s,
      op_ldi instr s, op_ldr instr s, op_lea instr s}"
    by (auto simp: dispatch_flag_ops)
  then show ?thesis unfolding d by (auto simp: flag_handlers)
next
  case False
  with assms(1) have t: "drop_bit 12 instr = OP_TRAP"
    and v: "instr AND 0xFF = TRAP_GETC \<or> instr AND 0xFF = TRAP_IN" and d: "d = R_R0"
    by (simp_all add: flag_dest_def Let_def split: if_splits)
  from v show ?thesis
  proof
    assume "instr AND 0xFF = TRAP_GETC"
    with t assms(2) show ?thesis unfolding d
      by (auto simp: dispatch_trap op_trap_flag_vects flag_handlers)
  next
    assume "instr AND 0xFF = TRAP_IN"
    with t assms(2) show ?thesis unfolding d
      by (auto simp: dispatch_trap op_trap_flag_vects flag_handlers)
  qed
qed

lemma steps_cond_ok: "cond_ok s \<Longrightarrow> steps cs s = Inr s' \<Longrightarrow> cond_ok s'"
proof (induction cs arbitrary: s)
  case Nil
  then show ?case by simp
next
  case (Cons c cs)
  show ?case
  proof (cases "running s")
    case True
    with Cons.prems(2) obtain s1 where s1: "step c s = Inr s1" and rest: "steps cs s1 = Inr s'"
      by (auto split: sum.splits)
    from Cons.prems(1) s1 have "cond_ok s1" by (rule cond_ok_step)
    then show ?thesis using rest by (rule Cons.IH)
  next
    case False
    with Cons.prems show ?thesis by simp
  qed
qed

text \<open>
  C7. In every state the loop reaches from the state \<open>main\<close> sets up (COND = ZRO), COND
  is one of POS = 1, ZRO = 2, NEG = 4; and after every instruction that updates the
  flags, COND is the flag of the destination register read as a two's-complement number:
  ZRO iff it is zero, NEG iff it is negative, POS iff it is positive.
\<close>

theorem cond_flag_invariant:
  "(initial s0 \<and> steps cs s0 = Inr s \<longrightarrow>
      regs s R_COND = FL_POS \<or> regs s R_COND = FL_ZRO \<or> regs s R_COND = FL_NEG)
   \<and> FL_POS = 1 \<and> FL_ZRO = 2 \<and> FL_NEG = 4
   \<and> (flag_dest (fst (fetch s)) = Some d \<and> step c s = Inr s' \<longrightarrow>
      regs s' R_COND = sign_flag (regs s' d)
      \<and> (regs s' R_COND = FL_ZRO \<longleftrightarrow> sint (regs s' d) = 0)
      \<and> (regs s' R_COND = FL_NEG \<longleftrightarrow> sint (regs s' d) < 0)
      \<and> (regs s' R_COND = FL_POS \<longleftrightarrow> 0 < sint (regs s' d)))"
proof (intro conjI impI)
  assume a: "initial s0 \<and> steps cs s0 = Inr s"
  then have "cond_ok s0" by (simp add: initial_def cond_ok_def)
  with a have "cond_ok s" by (blast intro: steps_cond_ok)
  then show "regs s R_COND = FL_POS \<or> regs s R_COND = FL_ZRO \<or> regs s R_COND = FL_NEG"
    by (simp add: cond_ok_def)
next
  show "FL_POS = 1" "FL_ZRO = 2" "FL_NEG = 4" by (simp_all add: fl_defs)
next
  assume a: "flag_dest (fst (fetch s)) = Some d \<and> step c s = Inr s'"
  obtain instr s1 where f: "fetch s = (instr, s1)" by (cases "fetch s")
  with a have *: "regs s' R_COND = sign_flag (regs s' d)"
    by (auto simp: step_fetch intro: dispatch_flag_dest)
  then show "regs s' R_COND = sign_flag (regs s' d)" .
  from * show "regs s' R_COND = FL_ZRO \<longleftrightarrow> sint (regs s' d) = 0"
    "regs s' R_COND = FL_NEG \<longleftrightarrow> sint (regs s' d) < 0"
    "regs s' R_COND = FL_POS \<longleftrightarrow> 0 < sint (regs s' d)"
    by (auto simp: sign_flag_def fl_defs)
qed

theorem cond_flag_invariant_witness:
  "initial (machine 0x3000 [(0x3000, 0x127F), (0x3001, 0x5020)] [] [])
   \<and> (\<exists>s1 s2. steps [0] (machine 0x3000 [(0x3000, 0x127F), (0x3001, 0x5020)] [] []) = Inr s1
        \<and> regs s1 R_COND = FL_NEG
        \<and> flag_dest (fst (fetch s1)) = Some 0
        \<and> step 0 s1 = Inr s2
        \<and> regs s2 R_COND = FL_ZRO \<and> sint (regs s2 0) = 0)"
proof -
  let ?M = "machine 0x3000 [(0x3000, 0x127F), (0x3001, 0x5020)] [] []"
  have i: "initial ?M"
    by (simp add: initial_def machine_def reg_defs PC_START_def)
  obtain s1 where s1: "steps [0] ?M = Inr s1" and r1: "regs s1 R_COND = FL_NEG"
    and f1: "fst (fetch s1) = 0x5020"
    by (simp add: step_def fetch_def machine_def mem_read_def Let_def reg_defs mr_defs op_defs
      dispatch_def op_add_def sign_extend_def update_flags_def fl_defs)
  have d: "flag_dest (fst (fetch s1)) = Some 0"
    unfolding f1 by (simp add: flag_dest_def op_defs)
  obtain s2 where s2: "step 0 s1 = Inr s2"
    using f1 by (cases "fetch s1") (simp add: step_fetch dispatch_flag_ops op_defs)
  have z: "regs s2 0 = 0"
    using f1 s2 by (cases "fetch s1")
      (simp add: step_fetch dispatch_flag_ops op_defs, auto simp add: op_and_def Let_def sign_extend_def update_flags_regs reg_defs)
  from cond_flag_invariant [where ?s0.0 = ?M and cs = "[0]" and s = s1 and d = 0 and c = 0 and s' = s2] i s1 d s2 z r1
  show ?thesis by auto
qed

section \<open>Claims about the image loader\<close>

lemma of_nat_16_inj:
  "a < 65536 \<Longrightarrow> b < 65536 \<Longrightarrow> (of_nat a :: u16) = of_nat b \<longleftrightarrow> a = b"
  by (simp add: word_of_nat_eq_iff take_bit_nat_eq_self)

lemma of_nat_16_neq: "a < b \<Longrightarrow> b < 65536 \<Longrightarrow> (of_nat a :: u16) \<noteq> of_nat b"
  using of_nat_16_inj [of a b] by simp

lemma store_items_other:
  "(\<forall>i < length xs. a \<noteq> of_nat (p + i)) \<Longrightarrow> store_items p xs m a = m a"
proof (induction xs arbitrary: p m)
  case Nil
  then show ?case by simp
next
  case (Cons x xs)
  have "store_items (p + 1) xs (m(of_nat p := x)) a = (m(of_nat p := x)) a"
  proof (rule Cons.IH, intro allI impI)
    fix i assume "i < length xs"
    then show "a \<noteq> of_nat (p + 1 + i)" using Cons.prems [rule_format, of "Suc i"] by simp
  qed
  moreover have "a \<noteq> of_nat p" using Cons.prems [rule_format, of 0] by simp
  ultimately show ?case by simp
qed

lemma store_items_at:
  "p + length xs \<le> 65536 \<Longrightarrow> i < length xs \<Longrightarrow> store_items p xs m (of_nat (p + i)) = xs ! i"
proof (induction xs arbitrary: p m i)
  case Nil
  then show ?case by simp
next
  case (Cons x xs)
  show ?case
  proof (cases i)
    case 0
    have "store_items (p + 1) xs (m(of_nat p := x)) (of_nat p) = (m(of_nat p := x)) (of_nat p)"
    proof (rule store_items_other, intro allI impI)
      fix j assume "j < length xs"
      then show "(of_nat p :: u16) \<noteq> of_nat (p + 1 + j)"
        using Cons.prems(1) by (intro of_nat_16_neq) simp_all
    qed
    then show ?thesis using 0 by simp
  next
    case (Suc j)
    then have "store_items (p + 1) xs (m(of_nat p := x)) (of_nat (p + 1 + j)) = xs ! j"
      using Cons.prems by (intro Cons.IH) simp_all
    then show ?thesis using Suc by simp
  qed
qed

lemma swap_loop_other:
  "(\<forall>i < n. a \<noteq> of_nat (p + i)) \<Longrightarrow> swap_loop n p m a = m a"
proof (induction n arbitrary: p m)
  case 0
  then show ?case by simp
next
  case (Suc n)
  have "swap_loop n (p + 1) (m(of_nat p := swap_16 (m (of_nat p)))) a
      = (m(of_nat p := swap_16 (m (of_nat p)))) a"
  proof (rule Suc.IH, intro allI impI)
    fix i assume "i < n"
    then show "a \<noteq> of_nat (p + 1 + i)" using Suc.prems [rule_format, of "Suc i"] by simp
  qed
  moreover have "a \<noteq> of_nat p" using Suc.prems [rule_format, of 0] by simp
  ultimately show ?case by simp
qed

lemma swap_loop_at:
  "p + n \<le> 65536 \<Longrightarrow> i < n \<Longrightarrow>
   swap_loop n p m (of_nat (p + i)) = swap_16 (m (of_nat (p + i)))"
proof (induction n arbitrary: p m i)
  case 0
  then show ?case by simp
next
  case (Suc n)
  let ?m = "m(of_nat p := swap_16 (m (of_nat p)))"
  show ?case
  proof (cases i)
    case 0
    have "swap_loop n (p + 1) ?m (of_nat p) = ?m (of_nat p)"
    proof (rule swap_loop_other, intro allI impI)
      fix j assume "j < n"
      then show "(of_nat p :: u16) \<noteq> of_nat (p + 1 + j)"
        using Suc.prems(1) by (intro of_nat_16_neq) simp_all
    qed
    then show ?thesis using 0 by simp
  next
    case (Suc j)
    then have "swap_loop n (p + 1) ?m (of_nat (p + 1 + j)) = swap_16 (?m (of_nat (p + 1 + j)))"
      using Suc.prems by (intro Suc.IH) simp_all
    moreover have "(of_nat p :: u16) \<noteq> of_nat (p + 1 + j)"
      using Suc.prems Suc by (intro of_nat_16_neq) simp_all
    ultimately show ?thesis using Suc by simp
  qed
qed

lemma host_item_be:
  "(ucast (ucast (drop_bit 8 w) :: u8) OR push_bit 8 (ucast (ucast w :: u8)) :: u16) = swap_16 w"
  unfolding swap_16_def
  by (rule bit_word_eqI) (auto simp add: bit_simps dest: bit_imp_le_length)

lemma host_items_be: "host_items (be_bytes w @ bs) = swap_16 w # host_items bs"
  by (simp add: be_bytes_def host_item_be)

lemma host_items_payload: "host_items (concat (map be_bytes ws)) = map swap_16 ws"
  by (induction ws) (simp_all add: host_items_be)

lemma length_payload: "length (concat (map be_bytes ws)) = 2 * length ws"
  by (induction ws) (simp_all add: be_bytes_def)

lemma fread_origin:
  "fread 1 (image_file origin ws) = ([swap_16 origin], concat (map be_bytes ws))"
  by (simp add: fread_def image_file_def host_items_be Let_def) (simp add: be_bytes_def)

lemma fread_payload:
  "fread n (concat (map be_bytes ws))
     = (take n (map swap_16 ws), drop (2 * min (length ws) n) (concat (map be_bytes ws)))"
  by (simp add: fread_def host_items_payload Let_def)


lemma max_read_nonzero:
  "origin \<noteq> 0 \<Longrightarrow> unat (word_of_nat (MEMORY_MAX - unat origin) :: u16) = 65536 - unat origin"
  for origin :: u16
proof -
  assume "origin \<noteq> 0"
  then have "0 < unat origin" by (simp add: unat_gt_0)
  then have "MEMORY_MAX - unat origin < 65536" by (simp add: MEMORY_MAX_def)
  then show ?thesis by (simp add: unat_of_nat MEMORY_MAX_def)
qed

lemma read_image_file_loads:
  assumes "origin \<noteq> 0"
  shows "\<exists>s'. read_image_file (image_file origin ws) s = Inr s'
      \<and> (\<forall>i < min (length ws) (65536 - unat origin). memory s' (origin + of_nat i) = ws ! i)
      \<and> (\<forall>a. (\<forall>i < min (length ws) (65536 - unat origin). a \<noteq> origin + of_nat i)
              \<longrightarrow> memory s' a = memory s a)
      \<and> regs s' = regs s"
proof -
  let ?n = "65536 - unat origin"
  let ?k = "min (length ws) ?n"
  let ?items = "take ?n (map swap_16 ws)"
  let ?p = "unat origin"
  let ?m = "swap_loop (length ?items) ?p (store_items ?p ?items (memory s))"
  have len: "length ?items = ?k" by simp
  have "unat origin < 65536" using unsigned_less [of origin] by simp
  then have bound: "?p + length ?items \<le> 65536" unfolding len by arith
  have addr: "(of_nat (?p + i) :: u16) = origin + of_nat i" for i by simp
  have run: "read_image_file (image_file origin ws) s = Inr (s\<lparr>memory := ?m\<rparr>)"
    using assms unfolding read_image_file_def fread_origin
    by (simp add: swap_16_twice max_read_nonzero fread_payload Let_def)
  have at: "?m (origin + of_nat i) = ws ! i" if "i < ?k" for i
  proof -
    from that have i: "i < length ?items" by simp
    have "?m (of_nat (?p + i)) = swap_16 (store_items ?p ?items (memory s) (of_nat (?p + i)))"
      using bound i by (rule swap_loop_at)
    also have "store_items ?p ?items (memory s) (of_nat (?p + i)) = ?items ! i"
      using bound i by (rule store_items_at)
    also have "?items ! i = swap_16 (ws ! i)" using that by simp
    finally show ?thesis unfolding addr by (simp add: swap_16_twice)
  qed
  have other: "?m a = memory s a" if "\<forall>i < ?k. a \<noteq> origin + of_nat i" for a
  proof -
    from that have ne: "\<forall>i < length ?items. a \<noteq> of_nat (?p + i)"
      unfolding addr len by simp
    then have "?m a = store_items ?p ?items (memory s) a" by (rule swap_loop_other)
    also have "\<dots> = memory s a" using ne by (rule store_items_other)
    finally show ?thesis .
  qed
  show ?thesis
    unfolding run using at other by simp
qed

text \<open>
  C2. The loader is to place the payload words at \<open>origin\<close>, \<open>origin + 1\<close>, ... up to
  \<open>min(k, 65536 - origin)\<close> of them. It does so for every origin but 0
  (\<open>read_image_file_loads\<close>); with origin 0 the count \<open>65536\<close> does not fit the
  \<open>uint16_t max_read\<close>, which becomes 0, and no word is loaded at all.
\<close>

theorem origin_zero_loads_nothing:
  "(\<forall>s. read_image_file (image_file 0 [0x1234]) s = Inr s)
   \<and> image_file 0 [0x1234] = [0x00, 0x00, 0x12, 0x34]
   \<and> (\<exists>s'. read_image_file (image_file 1 [0x1234]) (process_start 0 []) = Inr s'
          \<and> memory s' 1 = 0x1234)"
  by (simp add: read_image_file_def image_file_def be_bytes_def fread_def swap_16_def
      MEMORY_MAX_def Let_def process_start_def)

section \<open>Claims about the terminal\<close>

text \<open>
  C4. The settings captured at startup are put back by \<open>handle_interrupt\<close>, but not when
  the program halts: after TRAP HALT the loop ends and \<open>main\<close> returns without calling
  \<open>restore_input_buffering\<close>. With \<open>ICANON = 2\<close> and \<open>ECHO = 8\<close> and a terminal whose
  local flags are \<open>0x8A3B\<close>, a program that only halts leaves them at \<open>0x8A31\<close>; the
  same run interrupted by SIGINT leaves \<open>0x8A3B\<close>.
\<close>

theorem halt_leaves_terminal_unrestored:
  "(\<exists>s'. main 2 8 [''prog.obj'' \<mapsto> image_file 0x3000 [0xF025]] (\<lambda>i. 0) None 1
            [''lc3'', ''prog.obj''] (process_start 0x8A3B []) = Some (Exit 0 s')
        \<and> c_lflag (original_tio s') = 0x8A3B
        \<and> c_lflag (terminal s') = 0x8A31
        \<and> stdout s' = map of_char ''HALT'' @ [0x0A])
   \<and> (\<exists>s'. main 2 8 [''prog.obj'' \<mapsto> image_file 0x3000 [0xF025]] (\<lambda>i. 0) (Some 0) 1
            [''lc3'', ''prog.obj''] (process_start 0x8A3B []) = Some (Exit (- 2) s')
        \<and> c_lflag (terminal s') = 0x8A3B)"
  by (simp add: main_def disable_input_buffering_def restore_input_buffering_def
      handle_interrupt_def read_image_def read_image_file_def image_file_def be_bytes_def
      fread_def swap_16_def MEMORY_MAX_def Let_def process_start_def PC_START_def
      step_def fetch_def mem_read_def dispatch_def op_trap_def trap_halt_def printf_def
      reg_defs fl_defs op_defs trap_defs mr_defs)

end
